theory Spec2Isabelle
  imports Main
begin

section \<open>The Wordle page script (wordle/script.js)\<close>

text \<open>
  The script keeps its session in variables at the top level of the page and reads the
  current guess back from the tiles of the grid. Strings are modelled as HOL strings, read
  as sequences of ASCII code units (the word list and the letters accepted by the key
  handler are ASCII); a one-character JavaScript string such as \<open>WORD[i]\<close> or the text of a
  tile is the one-element list \<open>[c]\<close>.
\<close>

definition MAX_GUESSES :: nat where
  "MAX_GUESSES = 6"

definition WORD_LENGTH :: nat where
  "WORD_LENGTH = 5"

subsection \<open>Marking the letters of a guess\<close>

text \<open>The three class names \<open>'correct'\<close>, \<open>'present'\<close> and \<open>'absent'\<close>.\<close>

datatype status = Correct | Present | Absent

text \<open>
  \<open>letterCount\<close> is an object used as a dictionary from one-character strings to numbers.
  A key that was never written reads as \<open>undefined\<close>, here \<open>None\<close>.
\<close>

type_synonym letterCount = "string \<rightharpoonup> int"

text \<open>\<open>for (let ch of WORD) letterCount[ch] = (letterCount[ch]||0) + 1;\<close>\<close>

definition countLetter :: "char \<Rightarrow> letterCount \<Rightarrow> letterCount" where
  "countLetter ch lc = lc([ch] \<mapsto> (case lc [ch] of None \<Rightarrow> 0 | Some n \<Rightarrow> n) + 1)"

definition countLetters :: "string \<Rightarrow> letterCount" where
  "countLetters w = fold countLetter w Map.empty"

text \<open>
  \<open>letterCount[k]--\<close>. On a missing key JavaScript stores \<open>NaN\<close>, which like \<open>undefined\<close>
  fails every later test \<open>> 0\<close>; the model leaves the key missing.
\<close>

definition decrement :: "letterCount \<Rightarrow> string \<Rightarrow> letterCount" where
  "decrement lc k = (case lc k of None \<Rightarrow> lc | Some n \<Rightarrow> lc(k \<mapsto> n - 1))"

text \<open>\<open>letterCount[k] > 0\<close>, false on a missing key.\<close>

definition positive :: "letterCount \<Rightarrow> string \<Rightarrow> bool" where
  "positive lc k = (case lc k of None \<Rightarrow> False | Some n \<Rightarrow> 0 < n)"

text \<open>
  \<open>guessArr[i] === WORD[i]\<close>: \<open>WORD[i]\<close> is a one-character string, or \<open>undefined\<close> past the
  end of \<open>WORD\<close>, which no tile text equals. \<open>guessArr\<close> is filled by \<open>WORD_LENGTH\<close> pushes,
  so its index is in range in both loops; the guard \<open>i < length guessArr\<close> only says so.
\<close>

definition sameLetter :: "string \<Rightarrow> string list \<Rightarrow> nat \<Rightarrow> bool" where
  "sameLetter w guessArr i =
     (i < length guessArr \<and> i < length w \<and> guessArr ! i = [w ! i])"

text \<open>The body of the first loop (``First pass: correct'') at index \<open>i\<close>.\<close>

definition firstPass :: "string \<Rightarrow> string list \<Rightarrow> nat \<Rightarrow> status list \<times> letterCount
    \<Rightarrow> status list \<times> letterCount" where
  "firstPass w guessArr i sl =
     (if sameLetter w guessArr i
      then ((fst sl)[i := Correct], decrement (snd sl) (guessArr ! i))
      else sl)"

text \<open>The body of the second loop (``Second pass: present'') at index \<open>i\<close>.\<close>

definition secondPass :: "string list \<Rightarrow> nat \<Rightarrow> status list \<times> letterCount
    \<Rightarrow> status list \<times> letterCount" where
  "secondPass guessArr i sl =
     (if i < length guessArr \<and> fst sl ! i = Absent \<and> positive (snd sl) (guessArr ! i)
      then ((fst sl)[i := Present], decrement (snd sl) (guessArr ! i))
      else sl)"

text \<open>
  The marking part of \<open>submitGuess\<close>: \<open>states\<close> starts as \<open>Array(WORD_LENGTH).fill('absent')\<close>,
  both loops run over \<open>0 .. WORD_LENGTH - 1\<close>, and the counts left by the first loop are the
  ones the second loop starts from.
\<close>

definition markLetters :: "string \<Rightarrow> string list \<Rightarrow> status list \<times> letterCount" where
  "markLetters w guessArr =
     fold (secondPass guessArr) [0..<WORD_LENGTH]
       (fold (firstPass w guessArr) [0..<WORD_LENGTH]
          (replicate WORD_LENGTH Absent, countLetters w))"

definition evaluate :: "string \<Rightarrow> string list \<Rightarrow> status list" where
  "evaluate w guessArr = fst (markLetters w guessArr)"

text \<open>The tile texts of a typed word: one one-character string per letter.\<close>

definition letters :: "string \<Rightarrow> string list" where
  "letters g = map (\<lambda>c. [c]) g"

text \<open>
  The positions of a marked guess that are not \<open>Absent\<close> and hold the letter \<open>c\<close>.
\<close>

definition marked :: "status list \<Rightarrow> string \<Rightarrow> char \<Rightarrow> nat list" where
  "marked states g c = filter (\<lambda>i. states ! i \<noteq> Absent \<and> g ! i = c) [0..<WORD_LENGTH]"

subsection \<open>Loading the word list\<close>

text \<open>
  \<open>String.prototype.trim\<close> removes white space and line terminators from both ends; on
  ASCII text these are tab, line feed, vertical tab, form feed, carriage return and space.
\<close>

definition isWhiteSpace :: "char \<Rightarrow> bool" where
  "isWhiteSpace c = (c \<in> set [CHR 0x09, CHR 0x0A, CHR 0x0B, CHR 0x0C, CHR 0x0D, CHR 0x20])"

definition trim :: "string \<Rightarrow> string" where
  "trim w = rev (dropWhile isWhiteSpace (rev (dropWhile isWhiteSpace w)))"

text \<open>\<open>toUpperCase\<close> and \<open>toLowerCase\<close> on ASCII text: only the 26 letters change.\<close>

definition upperChar :: "char \<Rightarrow> char" where
  "upperChar c =
     (let n = of_char c :: nat in if 97 \<le> n \<and> n \<le> 122 then char_of (n - 32) else c)"

definition lowerChar :: "char \<Rightarrow> char" where
  "lowerChar c =
     (let n = of_char c :: nat in if 65 \<le> n \<and> n \<le> 90 then char_of (n + 32) else c)"

definition toUpperCase :: "string \<Rightarrow> string" where
  "toUpperCase w = map upperChar w"

definition toLowerCase :: "string \<Rightarrow> string" where
  "toLowerCase w = map lowerChar w"

text \<open>
  \<open>text.split\<close> at the pattern ``an optional carriage return, then a line feed'': the text
  is cut at every line feed, and a carriage return right before a line feed belongs to the
  separator. \<open>cur\<close> holds the current piece, reversed. The
  result always has a last piece, which is empty when the text is empty or ends in a line
  feed.
\<close>

fun splitFrom :: "string \<Rightarrow> string \<Rightarrow> string list" where
  "splitFrom cur [] = [rev cur]"
| "splitFrom cur (c # cs) =
     (if c = CHR 0x0A then rev cur # splitFrom [] cs
      else if c = CHR 0x0D \<and> take 1 cs = [CHR 0x0A] then splitFrom cur cs
      else splitFrom (c # cur) cs)"

definition splitLines :: "string \<Rightarrow> string list" where
  "splitLines text = splitFrom [] text"

text \<open>
  The second \<open>then\<close> callback of the \<open>fetch\<close>: split, keep the pieces of length
  \<open>WORD_LENGTH\<close>, then trim and upper-case each kept piece, in this order.
\<close>

definition loadWords :: "string \<Rightarrow> string list" where
  "loadWords text =
     map (\<lambda>w. toUpperCase (trim w))
       (filter (\<lambda>w. length w = WORD_LENGTH) (splitLines text))"

text \<open>
  The whole \<open>fetch\<close> chain: the only error raised is the one for a response that is not
  \<open>ok\<close>; the \<open>catch\<close> handler then shows ``Error loading word list''.
\<close>

datatype loadError = NetworkError

definition load :: "bool \<Rightarrow> string \<Rightarrow> loadError + string list" where
  "load ok text = (if \<not> ok then Inl NetworkError else Inr (loadWords text))"

text \<open>\<open>isValidWord(w)\<close> is \<open>validWords.includes(w)\<close>: equality of strings, entry by entry.\<close>

definition isValidWord :: "string list \<Rightarrow> string \<Rightarrow> bool" where
  "isValidWord vw w = (w \<in> set vw)"

subsection \<open>The keyboard colours\<close>

text \<open>
  Each on-screen key carries a set of the three class names. The update of one key for one
  marked letter of a guess, as written in the flip callback of \<open>submitGuess\<close>:
\<close>

definition updateKey :: "status \<Rightarrow> status set \<Rightarrow> status set" where
  "updateKey st cls =
     (if st = Correct then insert Correct (cls - {Present, Absent})
      else if st = Present \<and> Correct \<notin> cls then insert Present (cls - {Absent})
      else if st = Absent \<and> Correct \<notin> cls \<and> Present \<notin> cls then insert Absent cls
      else cls)"

text \<open>
  The key is found by its \<open>data-key\<close> attribute, the lower-cased letter. The page is taken
  to hold a key for every letter that can be typed.
\<close>

definition mergeKey :: "string \<Rightarrow> status \<Rightarrow> (string \<Rightarrow> status set) \<Rightarrow> (string \<Rightarrow> status set)" where
  "mergeKey letter st kb = kb(toLowerCase letter := updateKey st (kb (toLowerCase letter)))"

text \<open>
  The status a key shows, read off its classes, and the position of a status in the order
  unseen, absent, present, correct.
\<close>

definition recorded :: "status set \<Rightarrow> status option" where
  "recorded cls =
     (if Correct \<in> cls then Some Correct
      else if Present \<in> cls then Some Present
      else if Absent \<in> cls then Some Absent
      else None)"

fun rank :: "status option \<Rightarrow> nat" where
  "rank None = 0"
| "rank (Some Absent) = 1"
| "rank (Some Present) = 2"
| "rank (Some Correct) = 3"

subsection \<open>The session\<close>

text \<open>
  The messages \<open>showMessage\<close> is called with. The losing message quotes \<open>WORD\<close>, which
  is \<open>undefined\<close> (here \<open>None\<close>) when the word was drawn from an empty list.
\<close>

datatype message = NotEnoughLetters | NotInWordList | Magnificent | TheWordWas "string option"

text \<open>
  The callbacks \<open>submitGuess\<close> hands to \<open>setTimeout\<close>, each with the values its closure
  captured:
  \<^item> \<open>Flip i letter st\<close>, after \<open>i * 100\<close> ms: colours tile \<open>i\<close> of the current row and
    updates the key of \<open>guessArr[i]\<close>. (The colour class is added by a nested callback
    250 ms later, on the tile the outer callback looked up; the model adds it at once.)
  \<^item> \<open>Decide guessWord\<close>, after \<open>WORD_LENGTH * 100 + 300\<close> ms: ends the animation and tests
    for a win, a loss or the next row.
  \<^item> \<open>FinishWin\<close> and \<open>FinishLose\<close>, 600 ms after \<open>Decide\<close>: show the final message and
    set \<open>gameOver\<close>.
\<close>

datatype timer = Flip nat string status | Decide string | FinishWin | FinishLose

text \<open>
  The variables of the page that the game functions read and write. The tiles are
  addressed by (row, column); \<open>timers\<close> is the queue of pending callbacks, earliest first.
  Not modelled: the help dialogue, the shake, flip and bounce classes, whether the message
  box and the play-again button are visible.
\<close>

record game =
  validWords :: "string list"
  WORD :: "string option"
  currentRow :: nat
  currentTile :: nat
  gameOver :: bool
  isAnimating :: bool
  tileText :: "nat \<times> nat \<Rightarrow> string"
  tileClass :: "nat \<times> nat \<Rightarrow> status set"
  keyClass :: "string \<Rightarrow> status set"
  messageText :: "message option"
  timers :: "timer list"

text \<open>
  \<open>chooseNewWord\<close>; \<open>idx\<close> is the index \<open>Math.floor(Math.random() * validWords.length)\<close>.
  Reading past the end of the list (the empty list, index 0) gives \<open>undefined\<close>.
\<close>

definition chooseNewWord :: "nat \<Rightarrow> game \<Rightarrow> game" where
  "chooseNewWord idx s =
     s\<lparr>WORD := (if idx < length (validWords s) then Some (validWords s ! idx) else None)\<rparr>"

definition onGrid :: "nat \<times> nat \<Rightarrow> bool" where
  "onGrid rc = (fst rc < MAX_GUESSES \<and> snd rc < WORD_LENGTH)"

definition resetGame :: "nat \<Rightarrow> game \<Rightarrow> game" where
  "resetGame idx s =
     chooseNewWord idx
       (s\<lparr>currentRow := 0, currentTile := 0, gameOver := False, isAnimating := False,
          tileText := (\<lambda>rc. if onGrid rc then [] else tileText s rc),
          tileClass := (\<lambda>rc. if onGrid rc then {} else tileClass s rc),
          keyClass := (\<lambda>k. keyClass s k - {Correct, Present, Absent})\<rparr>)"

text \<open>The page once the word list \<open>vw\<close> is stored and \<open>resetGame\<close> has run for the first time.\<close>

definition pageLoaded :: "string list \<Rightarrow> nat \<Rightarrow> game" where
  "pageLoaded vw idx =
     resetGame idx
       \<lparr>validWords = vw, WORD = Some [], currentRow = 0, currentTile = 0, gameOver = False,
        isAnimating = False, tileText = (\<lambda>rc. []), tileClass = (\<lambda>rc. {}),
        keyClass = (\<lambda>k. {}), messageText = None, timers = []\<rparr>"

definition addLetter :: "string \<Rightarrow> game \<Rightarrow> game" where
  "addLetter letter s =
     (if currentTile s < WORD_LENGTH \<and> \<not> isAnimating s
      then s\<lparr>tileText := (tileText s)((currentRow s, currentTile s) := letter),
             currentTile := currentTile s + 1\<rparr>
      else s)"

definition deleteLetter :: "game \<Rightarrow> game" where
  "deleteLetter s =
     (if 0 < currentTile s \<and> \<not> isAnimating s
      then s\<lparr>currentTile := currentTile s - 1,
             tileText := (tileText s)((currentRow s, currentTile s - 1) := [])\<rparr>
      else s)"

text \<open>The guess as \<open>submitGuess\<close> reads it from the tiles of the current row.\<close>

definition guessArr :: "game \<Rightarrow> string list" where
  "guessArr s = map (\<lambda>i. tileText s (currentRow s, i)) [0..<WORD_LENGTH]"

definition guessWord :: "game \<Rightarrow> string" where
  "guessWord s = concat (guessArr s)"

text \<open>
  \<open>submitGuess\<close>. The two rejections show a message and return. An accepted guess is
  marked, \<open>isAnimating\<close> is set, and the five flip callbacks and the deciding callback are
  queued. Iterating \<open>WORD\<close> when it is \<open>undefined\<close> throws, which leaves the page as it is.
\<close>

definition submitGuess :: "game \<Rightarrow> game" where
  "submitGuess s =
     (if isAnimating s then s
      else if currentTile s \<noteq> WORD_LENGTH then s\<lparr>messageText := Some NotEnoughLetters\<rparr>
      else if \<not> isValidWord (validWords s) (guessWord s)
        then s\<lparr>messageText := Some NotInWordList\<rparr>
      else (case WORD s of
          None \<Rightarrow> s
        | Some w \<Rightarrow>
            s\<lparr>isAnimating := True,
              timers := timers s
                @ map (\<lambda>i. Flip i (guessArr s ! i) (evaluate w (guessArr s) ! i)) [0..<WORD_LENGTH]
                @ [Decide (guessWord s)]\<rparr>))"

text \<open>What each callback does when its time has come.\<close>

fun fire :: "timer \<Rightarrow> game \<Rightarrow> game" where
  "fire (Flip i letter st) s =
     s\<lparr>tileClass := (tileClass s)((currentRow s, i) := insert st (tileClass s (currentRow s, i))),
       keyClass := mergeKey letter st (keyClass s)\<rparr>"
| "fire (Decide gw) s =
     (if Some gw = WORD s
      then s\<lparr>isAnimating := False, timers := timers s @ [FinishWin]\<rparr>
      else if currentRow s = MAX_GUESSES - 1
      then s\<lparr>isAnimating := False, timers := timers s @ [FinishLose]\<rparr>
      else s\<lparr>isAnimating := False, currentRow := currentRow s + 1, currentTile := 0\<rparr>)"
| "fire FinishWin s = s\<lparr>messageText := Some Magnificent, gameOver := True\<rparr>"
| "fire FinishLose s = s\<lparr>messageText := Some (TheWordWas (WORD s)), gameOver := True\<rparr>"

text \<open>
  The \<open>keydown\<close> listener: nothing is dispatched once the game is over or while a guess
  is being animated. A character key passes the test for a single ASCII letter before it
  is upper-cased and added. The click listener of the on-screen keys guards and dispatches
  in the same way.
\<close>

datatype key = Enter | Backspace | Character char

definition isLetter :: "char \<Rightarrow> bool" where
  "isLetter c = (let n = of_char c :: nat in (65 \<le> n \<and> n \<le> 90) \<or> (97 \<le> n \<and> n \<le> 122))"

definition keydown :: "key \<Rightarrow> game \<Rightarrow> game" where
  "keydown k s =
     (if gameOver s \<or> isAnimating s then s
      else (case k of
          Enter \<Rightarrow> submitGuess s
        | Backspace \<Rightarrow> deleteLetter s
        | Character c \<Rightarrow> if isLetter c then addLetter (toUpperCase [c]) s else s))"

text \<open>
  What the page reacts to: a key, the passing of time up to the next pending callback, or
  a click on the play-again button, whose listener is \<open>resetGame\<close> itself (\<open>PlayAgain idx\<close>,
  with the index of the new word; pending callbacks are not cancelled).
  Callbacks run in the order they were queued. (A flip callback of a later guess may in
  fact be due before a \<open>FinishWin\<close> or \<open>FinishLose\<close> queued earlier; the two write different
  variables, so the order between them does not change any state reached after both.)
\<close>

datatype event = KeyDown key | Timeout | PlayAgain nat

fun step :: "event \<Rightarrow> game \<Rightarrow> game" where
  "step (KeyDown k) s = keydown k s"
| "step Timeout s = (case timers s of [] \<Rightarrow> s | t # ts \<Rightarrow> fire t (s\<lparr>timers := ts\<rparr>))"
| "step (PlayAgain idx) s = resetGame idx s"

definition run :: "event list \<Rightarrow> game \<Rightarrow> game" where
  "run evs s = fold step evs s"

text \<open>
  The outcome of a session is what the page shows: the game is over and the final message
  is the winning or the losing one.
\<close>

definition won :: "game \<Rightarrow> bool" where
  "won s = (gameOver s \<and> messageText s = Some Magnificent)"

definition lost :: "game \<Rightarrow> bool" where
  "lost s = (gameOver s \<and> (case messageText s of Some (TheWordWas w) \<Rightarrow> True | _ \<Rightarrow> False))"

definition inProgress :: "game \<Rightarrow> bool" where
  "inProgress s = (\<not> gameOver s)"

text \<open>Typing a word and pressing Enter, and letting \<open>n\<close> pending callbacks run.\<close>

definition typeWord :: "string \<Rightarrow> event list" where
  "typeWord w = map (\<lambda>c. KeyDown (Character c)) w @ [KeyDown Enter]"

definition wait :: "nat \<Rightarrow> event list" where
  "wait n = replicate n Timeout"

text \<open>The keyboard after a sequence of flip callbacks, each with its letter and status.\<close>

definition mergeAll :: "(string \<times> status) list \<Rightarrow> (string \<Rightarrow> status set) \<Rightarrow> (string \<Rightarrow> status set)" where
  "mergeAll obs kb = fold (\<lambda>(letter, st). mergeKey letter st) obs kb"

text \<open>
  The greater of two statuses in the order absent, present, correct, and the statuses
  that a sequence of flip callbacks brings to the key \<open>k\<close>, in their order.
\<close>

definition better :: "status \<Rightarrow> status \<Rightarrow> status" where
  "better x st = (if rank (Some x) \<le> rank (Some st) then st else x)"

definition broughtTo :: "string \<Rightarrow> (string \<times> status) list \<Rightarrow> status list" where
  "broughtTo k obs = map snd (filter (\<lambda>(letter, st). toLowerCase letter = k) obs)"

definition bestOf :: "status \<Rightarrow> status list \<Rightarrow> status" where
  "bestOf x sts = fold (\<lambda>st y. better y st) sts x"

subsection \<open>A session with a guess typed right after the winning one\<close>

text \<open>
  The word list holds CRANE and REACT, and CRANE is the word to find. REACT is played on
  the first five rows, each time with its six callbacks run before the next key. CRANE is
  played on the last row and its six callbacks run, so \<open>isAnimating\<close> is false again and
  \<open>FinishWin\<close> is pending for another 600 ms. Within that time the row is erased and
  REACT typed and submitted in its place.
\<close>

definition lateBank :: "string list" where
  "lateBank = [''CRANE'', ''REACT'']"

definition fiveRows :: "event list" where
  "fiveRows = concat (replicate 5 (typeWord ''react'' @ wait 6))"

definition winningRow :: "event list" where
  "winningRow = typeWord ''crane'' @ wait 6"

definition lateGuess :: "event list" where
  "lateGuess = replicate 5 (KeyDown Backspace) @ typeWord ''react''"

subsection \<open>Notions used in the proofs\<close>

text \<open>
  While a guess is being animated, the current row is full and holds a word of the list.
\<close>

definition animatedRowValid :: "game \<Rightarrow> bool" where
  "animatedRowValid s =
     (if isAnimating s
      then currentTile s = WORD_LENGTH \<and> isValidWord (validWords s) (guessWord s)
      else True)"

text \<open>The count a key of \<open>letterCount\<close> stands for, with 0 for a missing key.\<close>

definition avail :: "letterCount \<Rightarrow> string \<Rightarrow> int" where
  "avail lc k = (case lc k of None \<Rightarrow> 0 | Some n \<Rightarrow> n)"

text \<open>The positions marked so far that hold the tile text \<open>k\<close>.\<close>

definition usedAt :: "status list \<Rightarrow> string list \<Rightarrow> string \<Rightarrow> nat set" where
  "usedAt sts ga k = {i. i < length sts \<and> sts ! i \<noteq> Absent \<and> ga ! i = k}"

text \<open>The positions of the word from \<open>i\<close> on that hold the letter \<open>k\<close>.\<close>

definition restAt :: "string \<Rightarrow> string \<Rightarrow> nat \<Rightarrow> nat set" where
  "restAt w k i = {j. i \<le> j \<and> j < length w \<and> [w ! j] = k}"

text \<open>
  The invariant of the first loop before index \<open>i\<close>, for one key \<open>k\<close>: nothing from \<open>i\<close> on is
  marked yet, marked positions and remaining count add up to the count of \<open>k\<close> in the word,
  and the remaining count covers the occurrences of \<open>k\<close> in the word still to come.
\<close>

definition inv1 :: "string \<Rightarrow> string list \<Rightarrow> string \<Rightarrow> nat \<Rightarrow> status list \<times> letterCount \<Rightarrow> bool" where
  "inv1 w ga k i sl =
     (length (fst sl) = length ga \<and>
      (\<forall>j. i \<le> j \<longrightarrow> j < length ga \<longrightarrow> fst sl ! j = Absent) \<and>
      avail (snd sl) k + int (card (usedAt (fst sl) ga k)) = int (count_list (letters w) k) \<and>
      int (card (restAt w k i)) \<le> avail (snd sl) k)"

text \<open>The invariant of the second loop: the same balance, and no count below zero.\<close>

definition inv2 :: "string \<Rightarrow> string list \<Rightarrow> string \<Rightarrow> status list \<times> letterCount \<Rightarrow> bool" where
  "inv2 w ga k sl =
     (length (fst sl) = length ga \<and>
      avail (snd sl) k + int (card (usedAt (fst sl) ga k)) = int (count_list (letters w) k) \<and>
      0 \<le> avail (snd sl) k)"

text \<open>The status of position \<open>i\<close> after the first loop has passed the indices below \<open>k\<close>.\<close>

definition exact :: "string \<Rightarrow> string list \<Rightarrow> nat \<Rightarrow> nat \<Rightarrow> status" where
  "exact w ga k i = (if i < k \<and> sameLetter w ga i then Correct else Absent)"

text \<open>Two status lists with \<open>Correct\<close> at the same positions.\<close>

definition sameCorrect :: "status list \<Rightarrow> status list \<Rightarrow> bool" where
  "sameCorrect a b = (length b = length a \<and> (\<forall>i<length a. (b ! i = Correct) = (a ! i = Correct)))"

section \<open>Properties of the marking\<close>

lemma fold_upt_staged:
  assumes "Q 0 s" and "\<And>i s. i < k \<Longrightarrow> Q i s \<Longrightarrow> Q (Suc i) (f i s)"
  shows "Q k (fold f [0..<k] s)"
  using assms
proof (induction k)
  case 0
  then show ?case by simp
next
  case (Suc k)
  have "Q k (fold f [0..<k] s)"
    by (rule Suc.IH) (use Suc.prems in auto)
  then show ?case using Suc.prems(2) [of k] by simp
qed

lemma finite_usedAt [simp]: "finite (usedAt sts ga k)"
  by (simp add: usedAt_def)

lemma finite_restAt [simp]: "finite (restAt w k i)"
  by (simp add: restAt_def)

lemma avail_decrement_other: "k \<noteq> k' \<Longrightarrow> avail (decrement lc k') k = avail lc k"
  by (simp add: avail_def decrement_def split: option.splits)

lemma avail_decrement_same: "0 < avail lc k \<Longrightarrow> avail (decrement lc k) k = avail lc k - 1"
  by (simp add: avail_def decrement_def split: option.splits)

lemma positive_avail: "positive lc k = (0 < avail lc k)"
  by (simp add: avail_def positive_def split: option.splits)

lemma avail_countLetter:
  "avail (countLetter ch lc) k = avail lc k + (if k = [ch] then 1 else 0)"
  by (simp add: avail_def countLetter_def split: option.splits)

lemma avail_fold_countLetter:
  "avail (fold countLetter w lc) k = avail lc k + int (count_list (letters w) k)"
  by (induction w arbitrary: lc) (auto simp: avail_countLetter letters_def)

lemma avail_countLetters: "avail (countLetters w) k = int (count_list (letters w) k)"
  by (simp add: countLetters_def avail_fold_countLetter) (simp add: avail_def)

lemma count_list_letters: "count_list (letters w) [c] = count_list w c"
  by (induction w) (auto simp: letters_def)

lemma card_restAt_0: "card (restAt w k 0) = count_list (letters w) k"
proof -
  have "count_list (letters w) k = length (filter ((=) k) (letters w))"
    by (simp add: count_list_eq_length_filter)
  also have "\<dots> = card {j. j < length (letters w) \<and> k = letters w ! j}"
    by (simp add: length_filter_conv_card)
  also have "{j. j < length (letters w) \<and> k = letters w ! j} = restAt w k 0"
    by (auto simp: restAt_def letters_def)
  finally show ?thesis by simp
qed

lemma usedAt_update_other:
  assumes "ga ! i \<noteq> k"
  shows "usedAt (sts[i := x]) ga k = usedAt sts ga k"
proof -
  have "sts[i := x] ! j = sts ! j" if "ga ! j = k" for j
  proof -
    from that assms have "i \<noteq> j" by auto
    then show ?thesis by (rule nth_list_update_neq)
  qed
  then show ?thesis
    unfolding usedAt_def by (intro Collect_cong) auto
qed

lemma usedAt_update_same:
  "i < length sts \<Longrightarrow> x \<noteq> Absent \<Longrightarrow> usedAt (sts[i := x]) ga (ga ! i) = insert i (usedAt sts ga (ga ! i))"
  by (auto simp: usedAt_def nth_list_update)

lemma usedAt_fresh: "sts ! i = Absent \<Longrightarrow> i \<notin> usedAt sts ga k"
  by (simp add: usedAt_def)

lemma restAt_Suc_in: "i < length w \<Longrightarrow> [w ! i] = k \<Longrightarrow> restAt w k i = insert i (restAt w k (Suc i))"
  by (auto simp: restAt_def Suc_le_eq le_less)

lemma restAt_Suc_out: "\<not> (i < length w \<and> [w ! i] = k) \<Longrightarrow> restAt w k (Suc i) = restAt w k i"
  by (auto simp: restAt_def Suc_le_eq le_less)

lemma restAt_fresh: "i \<notin> restAt w k (Suc i)"
  by (simp add: restAt_def)

lemma inv1_init: "inv1 w ga k 0 (replicate (length ga) Absent, countLetters w)"
  by (simp add: inv1_def avail_countLetters card_restAt_0 usedAt_def)

lemma inv1_step:
  assumes "inv1 w ga k i sl"
  shows "inv1 w ga k (Suc i) (firstPass w ga i sl)"
proof (cases "sameLetter w ga i")
  case False
  have "restAt w k (Suc i) \<subseteq> restAt w k i"
    by (auto simp: restAt_def)
  then have "card (restAt w k (Suc i)) \<le> card (restAt w k i)"
    by (simp add: card_mono)
  with assms False show ?thesis
    by (simp add: inv1_def firstPass_def)
next
  case True
  then have i: "i < length ga" "i < length w" "ga ! i = [w ! i]"
    by (simp_all add: sameLetter_def)
  from assms have len: "length (fst sl) = length ga"
    and abs: "\<forall>j. i \<le> j \<longrightarrow> j < length ga \<longrightarrow> fst sl ! j = Absent"
    and bal: "avail (snd sl) k + int (card (usedAt (fst sl) ga k)) = int (count_list (letters w) k)"
    and rest: "int (card (restAt w k i)) \<le> avail (snd sl) k"
    by (simp_all add: inv1_def)
  have fp: "firstPass w ga i sl = ((fst sl)[i := Correct], decrement (snd sl) (ga ! i))"
    using True by (simp add: firstPass_def)
  have abs': "\<forall>j. Suc i \<le> j \<longrightarrow> j < length ga \<longrightarrow> (fst sl)[i := Correct] ! j = Absent"
    using abs by (simp add: nth_list_update)
  show ?thesis
  proof (cases "ga ! i = k")
    case False
    then have "restAt w k (Suc i) = restAt w k i"
      using i by (intro restAt_Suc_out) auto
    with False len abs' bal rest show ?thesis
      by (simp add: inv1_def fp usedAt_update_other avail_decrement_other)
  next
    case True
    have r: "restAt w k i = insert i (restAt w k (Suc i))"
      using i True by (intro restAt_Suc_in) auto
    have cr: "card (restAt w k i) = Suc (card (restAt w k (Suc i)))"
      unfolding r by (simp add: restAt_fresh)
    with rest have pos: "0 < avail (snd sl) k" by simp
    have u: "usedAt ((fst sl)[i := Correct]) ga k = insert i (usedAt (fst sl) ga k)"
      using usedAt_update_same [of i "fst sl" Correct ga] i len True by simp
    have "i \<notin> usedAt (fst sl) ga k"
      using abs i by (intro usedAt_fresh) simp
    then have cu: "card (usedAt ((fst sl)[i := Correct]) ga k) = Suc (card (usedAt (fst sl) ga k))"
      unfolding u by simp
    show ?thesis
      using len abs' bal rest cr cu pos True
      by (simp add: inv1_def fp avail_decrement_same)
  qed
qed

lemma inv1_inv2: "inv1 w ga k i sl \<Longrightarrow> inv2 w ga k sl"
  by (auto simp: inv1_def inv2_def intro: order_trans [of 0 "int (card (restAt w k i))"])

lemma inv2_step:
  assumes "inv2 w ga k sl"
  shows "inv2 w ga k (secondPass ga i sl)"
proof (cases "i < length ga \<and> fst sl ! i = Absent \<and> positive (snd sl) (ga ! i)")
  case False
  then have "secondPass ga i sl = sl"
    unfolding secondPass_def by (rule if_not_P)
  with assms show ?thesis by simp
next
  case True
  from assms have len: "length (fst sl) = length ga"
    and bal: "avail (snd sl) k + int (card (usedAt (fst sl) ga k)) = int (count_list (letters w) k)"
    and nonneg: "0 \<le> avail (snd sl) k"
    by (simp_all add: inv2_def)
  have sp: "secondPass ga i sl = ((fst sl)[i := Present], decrement (snd sl) (ga ! i))"
    using True by (simp add: secondPass_def)
  show ?thesis
  proof (cases "ga ! i = k")
    case False
    with len bal nonneg show ?thesis
      by (simp add: inv2_def sp usedAt_update_other avail_decrement_other)
  next
    case same: True
    from True have pos: "0 < avail (snd sl) k"
      using same by (simp add: positive_avail)
    have u: "usedAt ((fst sl)[i := Present]) ga k = insert i (usedAt (fst sl) ga k)"
      using usedAt_update_same [of i "fst sl" Present ga] True len same by simp
    have "i \<notin> usedAt (fst sl) ga k"
      using True by (intro usedAt_fresh) simp
    then have cu: "card (usedAt ((fst sl)[i := Present]) ga k) = Suc (card (usedAt (fst sl) ga k))"
      unfolding u by simp
    show ?thesis
      using len bal pos cu same
      by (simp add: inv2_def sp avail_decrement_same)
  qed
qed

lemma inv2_fold: "inv2 w ga k sl \<Longrightarrow> inv2 w ga k (fold (secondPass ga) is sl)"
  by (induction "is" arbitrary: sl) (simp_all add: inv2_step)

lemma inv2_markLetters:
  assumes "length ga = WORD_LENGTH"
  shows "inv2 w ga k (markLetters w ga)"
proof -
  have "inv1 w ga k WORD_LENGTH
      (fold (firstPass w ga) [0..<WORD_LENGTH] (replicate WORD_LENGTH Absent, countLetters w))"
    by (rule fold_upt_staged) (use assms inv1_init [of w ga k] in \<open>simp_all add: inv1_step\<close>)
  then show ?thesis
    unfolding markLetters_def by (intro inv2_fold inv1_inv2)
qed

lemma firstPass_exact:
  assumes "fst sl = map (exact w ga i) [0..<n]"
  shows "fst (firstPass w ga i sl) = map (exact w ga (Suc i)) [0..<n]"
proof (rule nth_equalityI)
  show "length (fst (firstPass w ga i sl)) = length (map (exact w ga (Suc i)) [0..<n])"
    using assms by (simp add: firstPass_def)
next
  fix j
  assume "j < length (fst (firstPass w ga i sl))"
  then have j: "j < n"
    using assms by (simp add: firstPass_def split: if_splits)
  show "fst (firstPass w ga i sl) ! j = map (exact w ga (Suc i)) [0..<n] ! j"
    using assms j by (auto simp: firstPass_def exact_def nth_list_update less_Suc_eq)
qed

lemma fold_firstPass_exact:
  "fst (fold (firstPass w ga) [0..<k] (replicate n Absent, lc)) = map (exact w ga k) [0..<n]"
proof (rule fold_upt_staged [where Q = "\<lambda>i sl. fst sl = map (exact w ga i) [0..<n]"])
  show "fst (replicate n Absent, lc) = map (exact w ga 0) [0..<n]"
    by (simp add: exact_def list_eq_iff_nth_eq)
qed (rule firstPass_exact)

lemma secondPass_sameCorrect:
  "sameCorrect a (fst sl) \<Longrightarrow> sameCorrect a (fst (secondPass ga i sl))"
proof (cases "i < length ga \<and> fst sl ! i = Absent \<and> positive (snd sl) (ga ! i)")
  case False
  then have "secondPass ga i sl = sl"
    unfolding secondPass_def by (rule if_not_P)
  then show "sameCorrect a (fst sl) \<Longrightarrow> ?thesis" by simp
next
  case True
  assume a: "sameCorrect a (fst sl)"
  have "((fst sl)[i := Present] ! j = Correct) = (fst sl ! j = Correct)" for j
    using True by (cases "j = i"; cases "i < length (fst sl)") (simp_all add: list_update_beyond)
  with a True show ?thesis
    by (simp add: sameCorrect_def secondPass_def)
qed

lemma fold_secondPass_sameCorrect:
  "sameCorrect a (fst sl) \<Longrightarrow> sameCorrect a (fst (fold (secondPass ga) is sl))"
  by (induction "is" arbitrary: sl) (simp_all add: secondPass_sameCorrect)

lemma evaluate_Correct:
  "length (evaluate w ga) = WORD_LENGTH"
  "i < WORD_LENGTH \<Longrightarrow> (evaluate w ga ! i = Correct) = sameLetter w ga i"
proof -
  let ?first = "fold (firstPass w ga) [0..<WORD_LENGTH] (replicate WORD_LENGTH Absent, countLetters w)"
  have "sameCorrect (fst ?first) (fst ?first)"
    by (simp add: sameCorrect_def)
  then have "sameCorrect (fst ?first) (evaluate w ga)"
    unfolding evaluate_def markLetters_def by (rule fold_secondPass_sameCorrect)
  then have sc: "sameCorrect (map (exact w ga WORD_LENGTH) [0..<WORD_LENGTH]) (evaluate w ga)"
    by (simp only: fold_firstPass_exact)
  then show "length (evaluate w ga) = WORD_LENGTH"
    by (simp add: sameCorrect_def)
  show "(evaluate w ga ! i = Correct) = sameLetter w ga i" if "i < WORD_LENGTH"
    using sc that by (simp add: sameCorrect_def exact_def)
qed

lemma all_Correct_iff:
  "(evaluate w ga = replicate WORD_LENGTH Correct) = (\<forall>i<WORD_LENGTH. sameLetter w ga i)"
  by (auto simp: list_eq_iff_nth_eq evaluate_Correct)

lemma concat_letters: "concat (letters g) = g"
  by (induction g) (simp_all add: letters_def)

text \<open>
  Claim C1. For a word and a guess of \<open>WORD_LENGTH\<close> letters and any letter \<open>c\<close>, the
  positions of the guess that hold \<open>c\<close> and are marked \<open>Correct\<close> or \<open>Present\<close> are at most
  as many as the occurrences of \<open>c\<close> in the word.
\<close>

theorem conservation:
  assumes "length t = WORD_LENGTH" and "length g = WORD_LENGTH"
  shows "length (marked (evaluate t (letters g)) g c) \<le> count_list t c"
proof -
  let ?sts = "evaluate t (letters g)"
  have inv: "inv2 t (letters g) [c] (markLetters t (letters g))"
    using assms by (intro inv2_markLetters) (simp add: letters_def)
  then have len: "length ?sts = WORD_LENGTH"
    using assms by (simp add: inv2_def evaluate_def letters_def)
  have "length (marked ?sts g c) = card {i. i < WORD_LENGTH \<and> ?sts ! i \<noteq> Absent \<and> g ! i = c}"
    by (simp add: marked_def length_filter_conv_card cong: conj_cong)
  also have "{i. i < WORD_LENGTH \<and> ?sts ! i \<noteq> Absent \<and> g ! i = c} = usedAt ?sts (letters g) [c]"
    using len assms by (auto simp: usedAt_def letters_def)
  finally have "int (length (marked ?sts g c)) = int (card (usedAt ?sts (letters g) [c]))"
    by simp
  also have "\<dots> \<le> int (count_list (letters t) [c])"
    using inv by (simp add: inv2_def evaluate_def)
  finally show ?thesis by (simp add: count_list_letters)
qed

theorem conservation_witness:
  "length ''CRANE'' = WORD_LENGTH \<and> length ''EERIE'' = WORD_LENGTH \<and>
   length (marked (evaluate ''CRANE'' (letters ''EERIE'')) ''EERIE'' (CHR ''E''))
     \<le> count_list ''CRANE'' (CHR ''E'')"
proof -
  have t: "length ''CRANE'' = WORD_LENGTH" and g: "length ''EERIE'' = WORD_LENGTH"
    by (simp_all add: WORD_LENGTH_def)
  from conservation [OF t g, of "CHR ''E''"] t g show ?thesis
    by simp
qed

text \<open>
  Claim C2. With CRANE as the word, the guess REACT is marked Present, Present, Correct,
  Present, Absent, position by position.
\<close>

theorem crane_react:
  "evaluate ''CRANE'' (letters ''REACT'') = [Present, Present, Correct, Present, Absent]"
  by code_simp

text \<open>
  Claim C6. A word of \<open>WORD_LENGTH\<close> letters guessed against itself is marked \<open>Correct\<close> at
  every one of its positions.
\<close>

theorem exact_match:
  assumes "length w = WORD_LENGTH"
  shows "evaluate w (letters w) = replicate WORD_LENGTH Correct"
  using assms by (simp add: all_Correct_iff sameLetter_def letters_def)

theorem exact_match_witness:
  "length ''ALLOY'' = WORD_LENGTH \<and>
   evaluate ''ALLOY'' (letters ''ALLOY'') = replicate WORD_LENGTH Correct"
proof -
  have w: "length ''ALLOY'' = WORD_LENGTH"
    by (simp add: WORD_LENGTH_def)
  from exact_match [OF w] w show ?thesis
    by simp
qed

text \<open>
  Claim C10. For a word and a guess of \<open>WORD_LENGTH\<close> letters, the marking is \<open>Correct\<close> at
  every position exactly when the guess string that \<open>submitGuess\<close> compares with \<open>WORD\<close>
  (the joined tile texts) equals the word: the colours and the win test agree.
\<close>

theorem all_correct_is_win:
  assumes "length t = WORD_LENGTH" and "length g = WORD_LENGTH"
  shows "(evaluate t (letters g) = replicate WORD_LENGTH Correct) = (concat (letters g) = t)"
proof -
  have "(\<forall>i<WORD_LENGTH. sameLetter t (letters g) i) = (g = t)"
    using assms by (auto simp: sameLetter_def letters_def list_eq_iff_nth_eq)
  then show ?thesis
    by (simp add: all_Correct_iff concat_letters)
qed

theorem all_correct_is_win_witness:
  "length ''CRANE'' = WORD_LENGTH \<and> length ''CRANE'' = WORD_LENGTH \<and>
   (evaluate ''CRANE'' (letters ''CRANE'') = replicate WORD_LENGTH Correct) =
   (concat (letters ''CRANE'') = ''CRANE'')"
proof -
  have w: "length ''CRANE'' = WORD_LENGTH"
    by (simp add: WORD_LENGTH_def)
  from all_correct_is_win [OF w w] w show ?thesis
    by simp
qed

section \<open>Properties of the keyboard colours\<close>

lemma updateKey_empty: "updateKey st {} = {st}"
  by (cases st) (simp_all add: updateKey_def)

lemma updateKey_single: "updateKey st {x} = {better x st}"
  by (cases st; cases x) (auto simp: updateKey_def better_def)

lemma mergeKey_apply:
  "mergeKey letter st kb k = (if k = toLowerCase letter then updateKey st (kb k) else kb k)"
  by (simp add: mergeKey_def)

lemma mergeAll_Nil: "mergeAll [] kb = kb"
  by (simp add: mergeAll_def)

lemma mergeAll_Cons: "mergeAll ((letter, st) # obs) kb = mergeAll obs (mergeKey letter st kb)"
  by (simp add: mergeAll_def)

lemma broughtTo_Cons:
  "broughtTo k ((letter, st) # obs) =
     (if toLowerCase letter = k then st # broughtTo k obs else broughtTo k obs)"
  by (simp add: broughtTo_def)

lemma mergeAll_single:
  "kb k = {x} \<Longrightarrow> mergeAll obs kb k = {bestOf x (broughtTo k obs)}"
proof (induction obs arbitrary: kb x)
  case Nil
  then show ?case by (simp add: mergeAll_Nil broughtTo_def bestOf_def)
next
  case (Cons o1 obs)
  obtain letter st where o1: "o1 = (letter, st)"
    by (cases o1)
  show ?case
  proof (cases "toLowerCase letter = k")
    case True
    then have "mergeKey letter st kb k = {better x st}"
      using Cons.prems by (simp add: mergeKey_apply updateKey_single)
    then have "mergeAll obs (mergeKey letter st kb) k = {bestOf (better x st) (broughtTo k obs)}"
      by (rule Cons.IH)
    with True show ?thesis
      by (simp add: o1 mergeAll_Cons broughtTo_Cons bestOf_def)
  next
    case False
    then have "mergeKey letter st kb k = {x}"
      using Cons.prems by (auto simp: mergeKey_apply)
    then have "mergeAll obs (mergeKey letter st kb) k = {bestOf x (broughtTo k obs)}"
      by (rule Cons.IH)
    with False show ?thesis
      by (simp add: o1 mergeAll_Cons broughtTo_Cons)
  qed
qed

lemma mergeAll_unseen:
  "kb k = {} \<Longrightarrow>
     mergeAll obs kb k = (case broughtTo k obs of [] \<Rightarrow> {} | st # sts \<Rightarrow> {bestOf st sts})"
proof (induction obs arbitrary: kb)
  case Nil
  then show ?case by (simp add: mergeAll_Nil broughtTo_def)
next
  case (Cons o1 obs)
  obtain letter st where o1: "o1 = (letter, st)"
    by (cases o1)
  show ?case
  proof (cases "toLowerCase letter = k")
    case True
    then have "mergeKey letter st kb k = {st}"
      using Cons.prems by (simp add: mergeKey_apply updateKey_empty)
    then have "mergeAll obs (mergeKey letter st kb) k = {bestOf st (broughtTo k obs)}"
      by (rule mergeAll_single)
    with True show ?thesis
      by (simp add: o1 mergeAll_Cons broughtTo_Cons)
  next
    case False
    then have "mergeKey letter st kb k = {}"
      using Cons.prems by (auto simp: mergeKey_apply)
    then have "mergeAll obs (mergeKey letter st kb) k =
        (case broughtTo k obs of [] \<Rightarrow> {} | st # sts \<Rightarrow> {bestOf st sts})"
      by (rule Cons.IH)
    with False show ?thesis
      by (simp add: o1 mergeAll_Cons broughtTo_Cons)
  qed
qed

lemma better_Correct: "better Correct st = Correct"
  by (cases st) (simp_all add: better_def)

lemma bestOf_Correct: "bestOf Correct sts = Correct"
  unfolding bestOf_def by (induction sts) (simp_all add: better_Correct)

lemma rank_better: "rank (Some (better x st)) = max (rank (Some x)) (rank (Some st))"
  by (simp add: better_def max_def)

lemma rank_updateKey:
  "rank (recorded (updateKey st cls)) = max (rank (recorded cls)) (rank (Some st))"
  by (cases st) (auto simp: updateKey_def recorded_def)

lemma rank_mergeKey:
  "rank (recorded (mergeKey letter st kb k)) =
     (if k = toLowerCase letter then max (rank (recorded (kb k))) (rank (Some st))
      else rank (recorded (kb k)))"
  by (simp add: mergeKey_def rank_updateKey)

lemma rank_mergeAll: "rank (recorded (kb k)) \<le> rank (recorded (mergeAll obs kb k))"
proof (induction obs arbitrary: kb)
  case Nil
  then show ?case by (simp add: mergeAll_def)
next
  case (Cons o1 obs)
  obtain letter st where o1: "o1 = (letter, st)"
    by (cases o1)
  have "rank (recorded (kb k)) \<le> rank (recorded (mergeKey letter st kb k))"
    by (simp add: rank_mergeKey)
  also have "\<dots> \<le> rank (recorded (mergeAll obs (mergeKey letter st kb) k))"
    by (rule Cons.IH)
  finally show ?case
    by (simp add: mergeAll_def o1)
qed

text \<open>
  Claim C5. On the classes of a key: a flip callback gives an unseen key the status of its
  letter, and leaves on a key with one class exactly the greater of that class and the
  status of the letter, in the order absent, present, correct; every other key is as it
  was. Over any sequence of flip callbacks a key with the class \<open>Correct\<close> keeps exactly
  that class, a key with one class ends with the greatest of it and the statuses brought
  to it, and an unseen key ends with the greatest of the statuses brought to it. Read
  through \<open>recorded\<close>, on any set of classes, each callback takes the maximum and the
  status of a key never goes down.
\<close>

theorem keyboard_monotone:
  "updateKey st {} = {st}
   \<and> updateKey st {x} = {better x st}
   \<and> rank (Some (better x st)) = max (rank (Some x)) (rank (Some st))
   \<and> mergeKey letter st kb k = (if k = toLowerCase letter then updateKey st (kb k) else kb k)
   \<and> (kb k = {Correct} \<longrightarrow> mergeAll obs kb k = {Correct})
   \<and> (kb k = {x} \<longrightarrow> mergeAll obs kb k = {bestOf x (broughtTo k obs)})
   \<and> (kb k = {} \<longrightarrow>
        mergeAll obs kb k = (case broughtTo k obs of [] \<Rightarrow> {} | y # ys \<Rightarrow> {bestOf y ys}))
   \<and> rank (recorded (updateKey st cls)) = max (rank (recorded cls)) (rank (Some st))
   \<and> rank (recorded (kb k)) \<le> rank (recorded (mergeAll obs kb k))"
proof (intro conjI impI)
  assume "kb k = {Correct}"
  then show "mergeAll obs kb k = {Correct}"
    by (simp add: mergeAll_single bestOf_Correct)
qed (simp_all add: updateKey_empty updateKey_single rank_better mergeKey_apply mergeAll_single
    mergeAll_unseen rank_updateKey rank_mergeAll)

theorem keyboard_monotone_witness:
  "(\<lambda>k. {Correct}) ''c'' = {Correct}
   \<and> mergeAll [(''C'', Absent), (''E'', Present), (''C'', Present)] (\<lambda>k. {Correct}) ''c'' = {Correct}
   \<and> (\<lambda>k. {Absent}) ''c'' = {Absent}
   \<and> mergeAll [(''C'', Present), (''E'', Correct), (''C'', Absent)] (\<lambda>k. {Absent}) ''c'' = {Present}
   \<and> (\<lambda>k. {}) ''c'' = {}
   \<and> mergeAll [(''C'', Absent), (''E'', Correct), (''C'', Present), (''C'', Absent)] (\<lambda>k. {}) ''c''
       = {Present}
   \<and> updateKey Absent {Correct} = {Correct}
   \<and> updateKey Present {Absent} = {Present}"
proof -
  have b1: "bestOf Absent (broughtTo ''c'' [(''C'', Present), (''E'', Correct), (''C'', Absent)]) = Present"
    by code_simp
  have b2: "(case broughtTo ''c'' [(''C'', Absent), (''E'', Correct), (''C'', Present), (''C'', Absent)]
      of [] \<Rightarrow> {} | y # ys \<Rightarrow> {bestOf y ys}) = {Present}"
    by code_simp
  have b3: "better Correct Absent = Correct" "better Absent Present = Present"
    by (simp_all add: better_def)
  have w1: "mergeAll [(''C'', Absent), (''E'', Present), (''C'', Present)] (\<lambda>k. {Correct}) ''c'' = {Correct}"
    using keyboard_monotone [of Absent Correct "''C''" "\<lambda>k. {Correct}" "''c''"
        "[(''C'', Absent), (''E'', Present), (''C'', Present)]" "{}"]
    by simp
  have w2: "mergeAll [(''C'', Present), (''E'', Correct), (''C'', Absent)] (\<lambda>k. {Absent}) ''c'' = {Present}"
    using keyboard_monotone [of Absent Absent "''C''" "\<lambda>k. {Absent}" "''c''"
        "[(''C'', Present), (''E'', Correct), (''C'', Absent)]" "{}"] b1
    by simp
  have w3: "mergeAll [(''C'', Absent), (''E'', Correct), (''C'', Present), (''C'', Absent)] (\<lambda>k. {}) ''c''
       = {Present}"
    using keyboard_monotone [of Absent Absent "''C''" "\<lambda>k. {}" "''c''"
        "[(''C'', Absent), (''E'', Correct), (''C'', Present), (''C'', Absent)]" "{}"] b2
    by simp
  have w4: "updateKey Absent {Correct} = {Correct}"
    using keyboard_monotone [of Absent Correct "''C''" "\<lambda>k. {}" "''c''" "[]" "{}"] b3
    by simp
  have w5: "updateKey Present {Absent} = {Present}"
    using keyboard_monotone [of Present Absent "''C''" "\<lambda>k. {}" "''c''" "[]" "{}"] b3
    by simp
  from w1 w2 w3 w4 w5 show ?thesis
    by simp
qed

section \<open>Properties of the session\<close>

lemma animatedRowValid_pageLoaded: "animatedRowValid (pageLoaded vw idx)"
  by (simp add: animatedRowValid_def pageLoaded_def resetGame_def chooseNewWord_def)

lemma animatedRowValid_resetGame: "animatedRowValid (resetGame idx s)"
  by (simp add: animatedRowValid_def resetGame_def chooseNewWord_def)

lemma animatedRowValid_submitGuess:
  "animatedRowValid s \<Longrightarrow> animatedRowValid (submitGuess s)"
  by (auto simp: animatedRowValid_def submitGuess_def guessWord_def guessArr_def
      split: option.splits)

lemma animatedRowValid_keydown:
  "animatedRowValid s \<Longrightarrow> animatedRowValid (keydown k s)"
  by (cases k)
    (auto simp: keydown_def animatedRowValid_submitGuess,
     auto simp: animatedRowValid_def addLetter_def deleteLetter_def)

lemma animatedRowValid_fire:
  "animatedRowValid (s\<lparr>timers := ts\<rparr>) \<Longrightarrow> animatedRowValid (fire t (s\<lparr>timers := ts\<rparr>))"
  by (cases t) (auto simp: animatedRowValid_def guessWord_def guessArr_def)

lemma animatedRowValid_timers:
  "animatedRowValid (s\<lparr>timers := ts\<rparr>) = animatedRowValid s"
  by (simp add: animatedRowValid_def guessWord_def guessArr_def)

lemma animatedRowValid_step:
  "animatedRowValid s \<Longrightarrow> animatedRowValid (step e s)"
proof (cases e)
  case (KeyDown k)
  then show "animatedRowValid s \<Longrightarrow> ?thesis"
    by (simp add: animatedRowValid_keydown)
next
  case Timeout
  assume a: "animatedRowValid s"
  show ?thesis
  proof (cases "timers s")
    case Nil
    with a Timeout show ?thesis by simp
  next
    case (Cons t ts)
    from a have "animatedRowValid (s\<lparr>timers := ts\<rparr>)"
      by (simp add: animatedRowValid_timers)
    then have "animatedRowValid (fire t (s\<lparr>timers := ts\<rparr>))"
      by (rule animatedRowValid_fire)
    with Timeout Cons show ?thesis by simp
  qed
next
  case (PlayAgain idx)
  then show ?thesis
    by (simp add: animatedRowValid_resetGame)
qed

lemma animatedRowValid_run:
  "animatedRowValid s \<Longrightarrow> animatedRowValid (run evs s)"
  unfolding run_def by (induction evs arbitrary: s) (simp_all add: animatedRowValid_step)

text \<open>
  Claim C4. In every state the page reaches from its loaded state by keys, callbacks and
  play-again clicks: when \<open>submitGuess\<close> runs on a full row whose word is not in the word
  list, it shows ``Not in word list'' and changes nothing else. The row and the tile
  position, the tiles and their colours, the keyboard, the pending callbacks and
  \<open>gameOver\<close> are as before, so no attempt is used up and a game in progress stays in
  progress.
\<close>

theorem rejected_guess_keeps_row:
  assumes "s = run evs (pageLoaded vw idx)"
    and "currentTile s = WORD_LENGTH"
    and "\<not> isValidWord (validWords s) (guessWord s)"
  shows "messageText (submitGuess s) = Some NotInWordList
    \<and> currentRow (submitGuess s) = currentRow s
    \<and> currentTile (submitGuess s) = currentTile s
    \<and> tileText (submitGuess s) = tileText s
    \<and> tileClass (submitGuess s) = tileClass s
    \<and> keyClass (submitGuess s) = keyClass s
    \<and> timers (submitGuess s) = timers s
    \<and> isAnimating (submitGuess s) = isAnimating s
    \<and> gameOver (submitGuess s) = gameOver s
    \<and> inProgress (submitGuess s) = inProgress s"
proof -
  have "animatedRowValid s"
    unfolding assms(1) by (intro animatedRowValid_run animatedRowValid_pageLoaded)
  with assms(3) have "\<not> isAnimating s"
    by (auto simp: animatedRowValid_def split: if_splits)
  with assms(2,3) show ?thesis
    by (simp add: submitGuess_def inProgress_def)
qed

theorem rejected_guess_keeps_row_witness:
  "currentTile (run (map (\<lambda>c. KeyDown (Character c)) ''trace'') (pageLoaded lateBank 0)) = WORD_LENGTH
   \<and> \<not> isValidWord (validWords (run (map (\<lambda>c. KeyDown (Character c)) ''trace'') (pageLoaded lateBank 0)))
        (guessWord (run (map (\<lambda>c. KeyDown (Character c)) ''trace'') (pageLoaded lateBank 0)))
   \<and> messageText (submitGuess (run (map (\<lambda>c. KeyDown (Character c)) ''trace'') (pageLoaded lateBank 0)))
       = Some NotInWordList
   \<and> currentRow (submitGuess (run (map (\<lambda>c. KeyDown (Character c)) ''trace'') (pageLoaded lateBank 0))) = 0
   \<and> inProgress (submitGuess (run (map (\<lambda>c. KeyDown (Character c)) ''trace'') (pageLoaded lateBank 0)))"
proof -
  let ?s = "run (map (\<lambda>c. KeyDown (Character c)) ''trace'') (pageLoaded lateBank 0)"
  have t: "currentTile ?s = WORD_LENGTH" by code_simp
  have v: "\<not> isValidWord (validWords ?s) (guessWord ?s)" by code_simp
  have r: "currentRow ?s = 0" by code_simp
  have p: "inProgress ?s" by code_simp
  from rejected_guess_keeps_row [OF refl t v] t v r p show ?thesis
    by simp
qed

text \<open>
  Claim C3. The outcome shown need not be the winning one although a guess in the word
  list equalled the word: \<open>Decide\<close> clears \<open>isAnimating\<close> 600 ms before \<open>FinishWin\<close>
  sets \<open>gameOver\<close>, and a guess typed in between is accepted. In the session below the
  sixth guess is the word and the winning message appears; the guess typed right after it
  is played on the same, last row, and the session ends with the losing message.
\<close>

theorem late_guess_loses_won_game:
  "timers (run (fiveRows @ winningRow) (pageLoaded lateBank 0)) = [FinishWin]
   \<and> won (run (fiveRows @ winningRow @ lateGuess @ wait 1) (pageLoaded lateBank 0))
   \<and> lost (run (fiveRows @ winningRow @ lateGuess @ wait 8) (pageLoaded lateBank 0))
   \<and> \<not> won (run (fiveRows @ winningRow @ lateGuess @ wait 8) (pageLoaded lateBank 0))"
proof -
  have "timers (run (fiveRows @ winningRow) (pageLoaded lateBank 0)) = [FinishWin]"
    by code_simp
  moreover have "won (run (fiveRows @ winningRow @ lateGuess @ wait 1) (pageLoaded lateBank 0))"
    by code_simp
  moreover have l: "lost (run (fiveRows @ winningRow @ lateGuess @ wait 8) (pageLoaded lateBank 0))"
    by code_simp
  moreover from l have "\<not> won (run (fiveRows @ winningRow @ lateGuess @ wait 8) (pageLoaded lateBank 0))"
    by (auto simp: won_def lost_def)
  ultimately show ?thesis
    by blast
qed

section \<open>Properties of the word list\<close>

lemma upperChar_idem: "upperChar (upperChar c) = upperChar c"
  by (auto simp: upperChar_def Let_def)

lemma toUpperCase_idem: "toUpperCase (toUpperCase w) = toUpperCase w"
  by (simp add: toUpperCase_def upperChar_idem)

lemma loadWords_upper: "w \<in> set (loadWords text) \<Longrightarrow> toUpperCase w = w"
  by (auto simp: loadWords_def toUpperCase_idem)

text \<open>
  Claim C7. A stored word can be shorter than \<open>WORD_LENGTH\<close>: the pieces are filtered by
  length before they are trimmed, so the four letters \<open>abcd\<close> followed by a space pass the
  filter and are stored as \<open>ABCD\<close>.
\<close>

theorem short_word_loaded:
  "loadWords (''abcd '' @ [CHR 0x0A] @ ''crane'') = [''ABCD'', ''CRANE'']"
  by code_simp

text \<open>
  Claim C8. Loading does not fail on an empty text or on lines of different lengths: the
  empty text gives the empty list, and a short line is dropped.
\<close>

theorem load_rejects_counterexample:
  "load True [] = Inr [] \<and> load True (''ab'' @ [CHR 0x0A] @ ''crane'') = Inr [''CRANE'']"
  by code_simp

text \<open>
  Claim C8, as the script has it. Loading fails exactly when the response is not \<open>ok\<close>.
  For every text of an \<open>ok\<close> response it gives a word list, with one word for each line of
  length \<open>WORD_LENGTH\<close>; the other lines are dropped, and the list may be empty.
\<close>

theorem load_drops_words:
  "isl (load ok text) = (\<not> ok)
   \<and> load True text = Inr (loadWords text)
   \<and> length (loadWords text) = length (filter (\<lambda>w. length w = WORD_LENGTH) (splitLines text))"
  by (simp add: load_def loadWords_def)

text \<open>
  Claim C9. \<open>isValidWord\<close> tells the lower-case spelling of a stored word from its
  upper-case spelling: with \<open>crane\<close> loaded, \<open>CRANE\<close> is found and \<open>crane\<close> is not.
\<close>

theorem contains_counterexample:
  "isValidWord (loadWords ''crane'') (toUpperCase ''crane'') \<and> \<not> isValidWord (loadWords ''crane'') ''crane''"
  by code_simp

text \<open>
  Claim C9, as the script has it. The test is an exact comparison with the stored words,
  which are upper-cased when loaded: a word that is found equals its own upper-case form,
  and for such a word the test on the word and on its upper-case form agree.
\<close>

theorem contains_exact:
  "isValidWord (loadWords text) w \<Longrightarrow>
     toUpperCase w = w \<and> isValidWord (loadWords text) (toUpperCase w)"
  by (simp add: isValidWord_def loadWords_upper)

theorem contains_exact_witness:
  "isValidWord (loadWords ''crane'') ''CRANE'' \<and> toUpperCase ''CRANE'' = ''CRANE''
     \<and> isValidWord (loadWords ''crane'') (toUpperCase ''CRANE'')"
proof -
  have h: "isValidWord (loadWords ''crane'') ''CRANE''"
    by code_simp
  from contains_exact [OF h] h show ?thesis
    by simp
qed

end
